theory Spec2Isabelle
  imports Main "HOL-Library.Sublist"
begin

section \<open>Strings\<close>


definition upper_letters :: string where
  "upper_letters = ''ABCDEFGHIJKLMNOPQRSTUVWXYZ''"

definition lower_letters :: string where
  "lower_letters = ''abcdefghijklmnopqrstuvwxyz''"

definition toLowerCase_char :: "char \<Rightarrow> char" where
  "toLowerCase_char c =
     (case map_of (zip upper_letters lower_letters) c of Some d \<Rightarrow> d | None \<Rightarrow> c)"

definition is_ascii :: "char \<Rightarrow> bool" where
  "is_ascii c \<longleftrightarrow> \<not> digit7 c"

definition upper_ascii :: "char \<Rightarrow> char" where
  "upper_ascii c =
     (case map_of (zip lower_letters upper_letters) c of Some d \<Rightarrow> d | None \<Rightarrow> c)"

definition toUpperCase_char :: "(char \<Rightarrow> string) \<Rightarrow> char \<Rightarrow> string" where
  "toUpperCase_char tbl c = (if is_ascii c then [upper_ascii c] else tbl c)"

definition toLowerCase :: "string \<Rightarrow> string" where
  "toLowerCase s = map toLowerCase_char s"

definition toUpperCase :: "(char \<Rightarrow> string) \<Rightarrow> string \<Rightarrow> string" where
  "toUpperCase tbl s = concat (map (toUpperCase_char tbl) s)"

text \<open>The decimal digits of a number, as a template literal prints them.\<close>

definition digit_char :: "nat \<Rightarrow> char" where
  "digit_char d = ''0123456789'' ! (d mod 10)"

function show_nat :: "nat \<Rightarrow> string" where
  "show_nat n = (if n < 10 then [digit_char n] else show_nat (n div 10) @ [digit_char (n mod 10)])"
  by pat_completeness auto
termination
  by (relation "measure id") auto

section \<open>GitHubService\<close>

text \<open>
  Errors are values. \<open>RangeError\<close> is what \<open>crypto.timingSafeEqual\<close> raises on buffers
  of different byte length, \<open>TypeError\<close> what a property read on \<open>undefined\<close> raises,
  \<open>Error\<close> carries the message of a \<open>new Error(...)\<close>.
\<close>

datatype js_error = RangeError | TypeError | Error string

record github_service =
  webhookSecret :: string
  botUsername :: "string option"

text \<open>
  \<open>crypto.timingSafeEqual(a, b)\<close>: raises when the byte lengths differ, compares the
  contents otherwise.
\<close>

definition timingSafeEqual :: "string \<Rightarrow> string \<Rightarrow> js_error + bool" where
  "timingSafeEqual a b = (if length a \<noteq> length b then Inl RangeError else Inr (a = b))"

text \<open>
  \<open>verifyWebhookSignature(payload, signature)\<close>. The keyed digest
  \<open>createHmac('sha256', secret).update(payload).digest('hex')\<close> is the parameter \<open>hmac\<close>.
  The body of the \<open>try\<close> is \<open>verifyWebhookSignature_try\<close>; the \<open>catch\<close> turns every
  error into \<open>false\<close>.
\<close>

definition verifyWebhookSignature_try ::
  "(string \<Rightarrow> string \<Rightarrow> string) \<Rightarrow> github_service \<Rightarrow> string \<Rightarrow> string \<Rightarrow> js_error + bool" where
  "verifyWebhookSignature_try hmac svc payload signature =
     (let expectedSignature = ''sha256='' @ hmac (webhookSecret svc) payload
      in timingSafeEqual signature expectedSignature)"

definition verifyWebhookSignature ::
  "(string \<Rightarrow> string \<Rightarrow> string) \<Rightarrow> github_service \<Rightarrow> string \<Rightarrow> string \<Rightarrow> js_error + bool" where
  "verifyWebhookSignature hmac svc payload signature =
     (case verifyWebhookSignature_try hmac svc payload signature of
        Inl error \<Rightarrow> Inr False
      | Inr b \<Rightarrow> Inr b)"


section \<open>WebhookService\<close>

record 'body request =
  headers :: "string \<rightharpoonup> string"
  body :: 'body

text \<open>
  The service bundle of one installation. Its two workflow objects play no part in the
  functions below and are left out.
\<close>

record github_service_instances =
  githubService :: github_service

record webhook_service =
  currentServices :: "github_service_instances option"

text \<open>
  \<open>verifySignature(req)\<close>. \<open>JSON.stringify\<close> is the parameter \<open>stringify\<close>. A header
  that is absent or empty is falsy, and the request is accepted without a check.
\<close>

definition verifySignature ::
  "(string \<Rightarrow> string \<Rightarrow> string) \<Rightarrow> ('body \<Rightarrow> string) \<Rightarrow> webhook_service \<Rightarrow> 'body request
     \<Rightarrow> js_error + bool" where
  "verifySignature hmac stringify ws req =
     (case currentServices ws of
        None \<Rightarrow> Inl (Error ''Services not initialized'')
      | Some services \<Rightarrow>
          (case headers req ''x-hub-signature-256'' of
             None \<Rightarrow> Inr True
           | Some signature \<Rightarrow>
               if signature = [] then Inr True
               else verifyWebhookSignature hmac (githubService services)
                      (stringify (body req)) signature))"







section \<open>BaseSupervisorWorkflow: configuration and state\<close>

text \<open>
  \<open>END\<close> is the graph library's terminal marker (the string \<open>__end__\<close>); the
  supervisor node is registered under the name \<open>supervisor\<close>.
\<close>

definition END :: string where
  "END = ''__end__''"

definition supervisor :: string where
  "supervisor = ''supervisor''"

record agent_config =
  name :: string
  tools :: "string list"
  systemPrompt :: string

text \<open>
  Of \<open>WorkflowConfig\<close> the graph reads \<open>members\<close> and \<open>recursionLimit\<close>; the prompt
  texts and the model settings only reach the decision oracle, which is a parameter below.
  \<open>recursionLimit\<close> is optional.
\<close>

record workflow_config =
  members :: "string list"
  recursionLimit :: "nat option"

text \<open>
  A workflow is the configuration handed to the constructor together with what the
  subclass returns from \<open>getAgentConfigs()\<close>.
\<close>

record workflow =
  config :: workflow_config
  agentConfigs :: "agent_config list"

text \<open>
  Every message the graph stores is built by \<open>new HumanMessage({content, name})\<close>; the
  initial message has no name. The messages of an agent session are read only for their
  \<open>content\<close>.
\<close>

datatype message = HumanMessage (content: string) (msg_name: "string option")

record run_state =
  messages :: "message list"
  "next" :: string

text \<open>The reducers and defaults declared by \<open>initializeBaseState\<close>.\<close>

definition messages_reducer :: "message list \<Rightarrow> message list \<Rightarrow> message list" where
  "messages_reducer x y = x @ y"

definition messages_default :: "message list" where
  "messages_default = []"

definition next_reducer :: "string option \<Rightarrow> string option \<Rightarrow> string" where
  "next_reducer x y =
     (case y of Some v \<Rightarrow> v | None \<Rightarrow> (case x of Some v \<Rightarrow> v | None \<Rightarrow> END))"

definition next_default :: string where
  "next_default = END"

definition default_state :: run_state where
  "default_state = \<lparr>messages = messages_default, next = next_default\<rparr>"

text \<open>
  A node returns a partial update or nothing. A key that is absent leaves its field as it
  is, which is also what \<open>next_reducer\<close> returns for an undefined or null value; so
  \<open>upd_next = None\<close> stands for all three.
\<close>

record state_update =
  upd_messages :: "message list option"
  upd_next :: "string option"

definition apply_update :: "run_state \<Rightarrow> state_update option \<Rightarrow> run_state" where
  "apply_update s upd =
     (case upd of
        None \<Rightarrow> s
      | Some u \<Rightarrow>
          \<lparr>messages = (case upd_messages u of
                         None \<Rightarrow> messages s
                       | Some y \<Rightarrow> messages_reducer (messages s) y),
           next = next_reducer (Some (next s)) (upd_next u)\<rparr>)"

section \<open>BaseSupervisorWorkflow: nodes\<close>

text \<open>
  The reply of the language model bound to the \<open>route\<close> tool: its tool calls, each with
  the \<open>next\<close> entry of its arguments (absent when the arguments have none); \<open>next\<close> is
  the only entry in the schema of the tool, and no other entry is modelled. Nothing
  compares the entry with the schema after the model has answered.
  \<open>supervisorChain\<close> ends in \<open>x?.tool_calls?.[0]?.args\<close>: the arguments of the first
  tool call, or undefined.
\<close>

record tool_call =
  args_next :: "string option"

record ai_message =
  tool_calls :: "tool_call list"

definition supervisorChain ::
  "(run_state \<Rightarrow> js_error + ai_message) \<Rightarrow> run_state \<Rightarrow> js_error + state_update option" where
  "supervisorChain llm s =
     (case llm s of
        Inl e \<Rightarrow> Inl e
      | Inr x \<Rightarrow>
          Inr (case tool_calls x of
                 [] \<Rightarrow> None
               | tc # _ \<Rightarrow> Some \<lparr>upd_messages = None, upd_next = args_next tc\<rparr>))"

text \<open>\<open>formatAgentName\<close>: \<open>split('_')\<close>, capitalise each word, \<open>join('_')\<close>.\<close>

fun split_str :: "char \<Rightarrow> string \<Rightarrow> string list" where
  "split_str sep [] = [[]]"
| "split_str sep (c # cs) =
     (if c = sep then [] # split_str sep cs
      else (case split_str sep cs of
              w # ws \<Rightarrow> (c # w) # ws
            | [] \<Rightarrow> [[c]]))"

fun join_str :: "string \<Rightarrow> string list \<Rightarrow> string" where
  "join_str sep [] = []"
| "join_str sep [w] = w"
| "join_str sep (w # ws) = w @ sep @ join_str sep ws"

definition capitalize :: "(char \<Rightarrow> string) \<Rightarrow> string \<Rightarrow> string" where
  "capitalize tbl word = toUpperCase tbl (take 1 word) @ drop 1 word"

definition formatAgentName :: "(char \<Rightarrow> string) \<Rightarrow> string \<Rightarrow> string" where
  "formatAgentName tbl n = join_str ''_'' (map (capitalize tbl) (split_str CHR ''_'' n))"

text \<open>
  \<open>agentNode\<close>: run the agent session on the state, take the last message of its result
  and return it under the formatted name. Reading \<open>content\<close> of the last message of an
  empty result is a \<open>TypeError\<close>.
\<close>

definition agentNode ::
  "(char \<Rightarrow> string) \<Rightarrow> (run_state \<Rightarrow> js_error + message list) \<Rightarrow> agent_config \<Rightarrow> run_state
     \<Rightarrow> js_error + state_update option" where
  "agentNode tbl agent agentConfig s =
     (case agent s of
        Inl e \<Rightarrow> Inl e
      | Inr result \<Rightarrow>
          if result = [] then Inl TypeError
          else Inr (Some \<lparr>upd_messages =
                             Some [HumanMessage (content (last result))
                                     (Some (formatAgentName tbl (name agentConfig)))],
                           upd_next = None\<rparr>))"

section \<open>BaseSupervisorWorkflow: the graph and its execution\<close>

text \<open>
  What a run takes from outside. The decision oracle answers the \<open>k\<close>-th supervisor
  invocation (counted from 0) on the current state; the agent session of
  \<open>createReactAgent\<close> answers for an agent definition on the current state. Each may fail.
  \<open>upper_table\<close> is the runtime's upper-casing of the characters outside ASCII.
\<close>

record env =
  decide :: "nat \<Rightarrow> run_state \<Rightarrow> js_error + ai_message"
  reactAgent :: "agent_config \<Rightarrow> run_state \<Rightarrow> js_error + message list"
  upper_table :: "char \<Rightarrow> string"

text \<open>
  \<open>buildWorkflow\<close> registers the node \<open>supervisor\<close> and one node per agent definition,
  an edge from every member to \<open>supervisor\<close>, the conditional edge \<open>x => x.next\<close> out of
  \<open>supervisor\<close>, and the edge from the start to \<open>supervisor\<close>.
\<close>

definition node_names :: "workflow \<Rightarrow> string list" where
  "node_names w = supervisor # map name (agentConfigs w)"

text \<open>
  One node. The conditional edge is evaluated as part of the supervisor's step, on the
  state as the step leaves it, and the library refuses an empty destination there: the
  step fails with the error \<open>Branch condition returned unknown or null destination\<close>.
\<close>

definition run_node ::
  "env \<Rightarrow> workflow \<Rightarrow> nat \<Rightarrow> string \<Rightarrow> run_state \<Rightarrow> js_error + state_update option" where
  "run_node e w k n s =
     (if n = supervisor
      then (case supervisorChain (decide e k) s of
              Inl err \<Rightarrow> Inl err
            | Inr upd \<Rightarrow>
                if next (apply_update s upd) = []
                then Inl (Error ''Branch condition returned unknown or null destination'')
                else Inr upd)
      else (case find (\<lambda>ac. name ac = n) (agentConfigs w) of
              Some ac \<Rightarrow> agentNode (upper_table e) (reactAgent e ac) ac s
            | None \<Rightarrow> Inr None))"

text \<open>
  The node to run after \<open>n\<close> has left the state \<open>s\<close>. Out of \<open>supervisor\<close> the
  destination is \<open>s.next\<close>, which is not empty when the step has succeeded: \<open>END\<close> ends
  the run, the name of a node schedules that node, and any other name schedules nothing,
  so that the run ends as well (the library looks the name up among the nodes of the graph
  and has nothing to trigger). Out of a member the edge leads to \<open>supervisor\<close>.
\<close>

definition next_node :: "workflow \<Rightarrow> string \<Rightarrow> run_state \<Rightarrow> string option" where
  "next_node w n s =
     (if n = supervisor
      then (if next s = END then None
            else if next s \<in> set (node_names w) then Some (next s)
            else None)
      else if n \<in> set (members (config w)) then Some supervisor
      else None)"

text \<open>
  The execution loop of \<open>graph.invoke\<close>. One node runs per step; its update is merged
  into the state by the reducers. The library counts the steps: \<open>fuel\<close> is the number
  of steps that may follow the current one, and a step that has none left to follow fails
  the run with \<open>GraphRecursionError\<close>, the error that the specification calls
  IterationLimitExceeded, even when the graph would have ended with that step.
  The result is the list of the nodes that were invoked, in order, and the final state or
  the error. \<open>k\<close> counts the supervisor invocations made so far. \<open>GraphBuildError\<close>
  is the failure to build the graph, \<open>NodeError\<close> the failure of a node.
\<close>

datatype run_error = GraphRecursionError | GraphBuildError | NodeError js_error

fun run_loop ::
  "env \<Rightarrow> workflow \<Rightarrow> nat \<Rightarrow> nat \<Rightarrow> string \<Rightarrow> run_state
     \<Rightarrow> string list \<times> (run_error + run_state)" where
  "run_loop e w 0 k n s =
     (case run_node e w k n s of
        Inl err \<Rightarrow> ([n], Inl (NodeError err))
      | Inr upd \<Rightarrow> ([n], Inl GraphRecursionError))"
| "run_loop e w (Suc fuel) k n s =
     (case run_node e w k n s of
        Inl err \<Rightarrow> ([n], Inl (NodeError err))
      | Inr upd \<Rightarrow>
          (let s' = apply_update s upd in
           case next_node w n s' of
             None \<Rightarrow> ([n], Inr s')
           | Some n' \<Rightarrow>
               (let r = run_loop e w fuel (if n = supervisor then Suc k else k) n' s'
                in (n # fst r, snd r))))"

text \<open>
  \<open>this.config.recursionLimit || 100\<close>: an unset limit and the limit 0 are both falsy.
\<close>

definition effective_limit :: "workflow_config \<Rightarrow> nat" where
  "effective_limit cfg =
     (case recursionLimit cfg of None \<Rightarrow> 100 | Some l \<Rightarrow> if l = 0 then 100 else l)"

text \<open>
  \<open>graph.invoke(input, {recursionLimit})\<close> on the state \<open>st\<close> that the thread holds: the
  input is merged into that state by the reducers and the run starts at \<open>supervisor\<close>.
  With the limit \<open>l\<close> at most \<open>l\<close> nodes run, and a run returns only when it ends
  with fewer than \<open>l\<close> steps. \<open>execute\<close> never passes the limit 0.
\<close>

definition graph_invoke ::
  "env \<Rightarrow> workflow \<Rightarrow> nat \<Rightarrow> run_state \<Rightarrow> state_update
     \<Rightarrow> string list \<times> (run_error + run_state)" where
  "graph_invoke e w l st input =
     (case l of
        0 \<Rightarrow> ([], Inl GraphRecursionError)
      | Suc fuel \<Rightarrow> run_loop e w fuel 0 supervisor (apply_update st (Some input)))"

text \<open>
  Building the graph fails when a member has no node (\<open>addEdge\<close> from a node that was
  never added), when two nodes have the same name or a node has the reserved name
  \<open>END\<close>. A member named \<open>supervisor\<close> is counted among the failures: it would give
  the supervisor an unconditional edge to itself beside the conditional one, and the loop
  above has no step that runs two nodes.
\<close>

definition buildable :: "workflow \<Rightarrow> bool" where
  "buildable w \<longleftrightarrow>
     list_all (\<lambda>m. m \<in> set (map name (agentConfigs w))) (members (config w))
     \<and> distinct (node_names w) \<and> END \<notin> set (node_names w)"

text \<open>
  The graph of every run is compiled with the checkpointer of the workflow object and
  invoked under the thread \<open>owner/repo#prNumber\<close>. \<open>saved\<close> is what the checkpointer
  holds for that thread when the run starts: nothing on a thread that has not run, else
  the state that the last run of the thread has left. The run starts from the defaults in
  the first case and from the saved state in the second.
\<close>

definition thread_state :: "run_state option \<Rightarrow> run_state" where
  "thread_state saved = (case saved of None \<Rightarrow> default_state | Some st \<Rightarrow> st)"

text \<open>
  \<open>execute\<close>, from the initial message that \<open>createInitialMessage\<close> has produced: the
  last message of the final state, or the error of the run (logged and thrown again). The
  optional context of \<open>execute\<close> only adds fields that no node of the graph reads or
  writes, and is left out.
\<close>

definition execute_run ::
  "env \<Rightarrow> workflow \<Rightarrow> run_state option \<Rightarrow> string \<Rightarrow> string list \<times> (run_error + run_state)" where
  "execute_run e w saved initialMessage =
     (if buildable w
      then graph_invoke e w (effective_limit (config w)) (thread_state saved)
             \<lparr>upd_messages = Some [HumanMessage initialMessage None], upd_next = None\<rparr>
      else ([], Inl GraphBuildError))"

definition execute ::
  "env \<Rightarrow> workflow \<Rightarrow> run_state option \<Rightarrow> string \<Rightarrow> run_error + message option" where
  "execute e w saved initialMessage =
     (case snd (execute_run e w saved initialMessage) of
        Inl err \<Rightarrow> Inl err
      | Inr result \<Rightarrow>
          Inr (if messages result = [] then None else Some (last (messages result))))"

text \<open>
  Two runs of one workflow object for the same owner, repository and number, hence on one
  thread, the first on a thread that has not run before. When the first run returns, the
  checkpointer holds its final state and the second run starts from it. What the
  checkpointer holds after a run that failed is not modelled.
\<close>

definition run_twice ::
  "env \<Rightarrow> workflow \<Rightarrow> string
     \<Rightarrow> ((string list \<times> (run_error + run_state)) \<times> (string list \<times> (run_error + run_state))) option" where
  "run_twice e w initialMessage =
     (case snd (execute_run e w None initialMessage) of
        Inl err \<Rightarrow> None
      | Inr s1 \<Rightarrow>
          Some (execute_run e w None initialMessage, execute_run e w (Some s1) initialMessage))"

text \<open>
  Stubs for scenarios: an oracle that names the destinations of a fixed list one after the
  other (and calls no tool once the list is used up), an oracle that names the same
  destination every time, an agent session that answers every state with that state's
  messages followed by one reply, a session whose reply is the number of messages it was
  given, a case table that keeps every character, and a workflow of the two agents
  \<open>agent1\<close> and \<open>agent2\<close> with a given \<open>recursionLimit\<close>.
\<close>

definition sequence_oracle :: "string list \<Rightarrow> nat \<Rightarrow> run_state \<Rightarrow> js_error + ai_message" where
  "sequence_oracle ds k s =
     Inr \<lparr>tool_calls = (if k < length ds then [\<lparr>args_next = Some (ds ! k)\<rparr>] else [])\<rparr>"

definition constant_oracle :: "string \<Rightarrow> nat \<Rightarrow> run_state \<Rightarrow> js_error + ai_message" where
  "constant_oracle d k s = Inr \<lparr>tool_calls = [\<lparr>args_next = Some d\<rparr>]\<rparr>"

definition echo_agent :: "agent_config \<Rightarrow> run_state \<Rightarrow> js_error + message list" where
  "echo_agent ac s = Inr (messages s @ [HumanMessage (''reply of '' @ name ac) None])"

definition counting_agent :: "agent_config \<Rightarrow> run_state \<Rightarrow> js_error + message list" where
  "counting_agent ac s = Inr [HumanMessage (show_nat (length (messages s))) None]"

definition keep_char :: "char \<Rightarrow> string" where
  "keep_char c = [c]"

definition two_agents :: "nat option \<Rightarrow> workflow" where
  "two_agents limit =
     \<lparr>config = \<lparr>members = [''agent1'', ''agent2''], recursionLimit = limit\<rparr>,
      agentConfigs = [\<lparr>name = ''agent1'', tools = [], systemPrompt = ''first''\<rparr>,
                      \<lparr>name = ''agent2'', tools = [], systemPrompt = ''second''\<rparr>]\<rparr>"

section \<open>What a run observes of its collaborators\<close>

text \<open>
  Of a reply of the oracle the graph uses the destination in the first tool call and
  nothing else; of an agent session it uses the content of the last message.
  \<open>step_state\<close> is the state after one node, or the node's error.
\<close>

definition routing_decision :: "js_error + ai_message \<Rightarrow> js_error + string option" where
  "routing_decision r =
     (case r of
        Inl e \<Rightarrow> Inl e
      | Inr x \<Rightarrow> Inr (case tool_calls x of [] \<Rightarrow> None | tc # _ \<Rightarrow> args_next tc))"

definition final_output :: "js_error + message list \<Rightarrow> js_error + string" where
  "final_output r =
     (case r of
        Inl e \<Rightarrow> Inl e
      | Inr result \<Rightarrow> if result = [] then Inl TypeError else Inr (content (last result)))"

definition step_state ::
  "env \<Rightarrow> workflow \<Rightarrow> nat \<Rightarrow> string \<Rightarrow> run_state \<Rightarrow> js_error + run_state" where
  "step_state e w k n s = map_sum id (apply_update s) (run_node e w k n s)"

text \<open>
  The effect of \<open>formatAgentName\<close> on an ASCII name, read character by character: a
  character is upper-cased when it opens the name or follows an underscore.
\<close>

fun title_scan :: "bool \<Rightarrow> string \<Rightarrow> string" where
  "title_scan b [] = []"
| "title_scan b (c # cs) =
     (if c = CHR ''_'' then c # title_scan True cs
      else (if b then upper_ascii c else c) # title_scan False cs)"

section \<open>The objects of a workflow and of its runs\<close>

text \<open>
  Which objects a run creates and which it takes from the workflow object. An object is
  its reference; \<open>new\<close> takes the next unused reference from the allocation counter
  that is threaded through. The constructor creates the store and the checkpointer;
  \<open>initializeBaseState\<close> creates the state annotation on the first call only;
  \<open>execute\<close> creates a graph builder (\<open>new StateGraph\<close>), compiles it into a graph
  that is given \<open>this.store\<close> and \<open>this.checkpointer\<close>, and invokes that graph under
  the thread identifier \<open>owner/repo#prNumber\<close>.
\<close>

type_synonym ref = nat

record workflow_object =
  store :: ref
  checkpointer :: ref
  agentState :: "ref option"

record run_context =
  builder_ref :: ref
  graph_ref :: ref
  graph_state :: ref
  graph_store :: ref
  graph_checkpointer :: ref
  thread_id :: string

definition new :: "nat \<Rightarrow> ref \<times> nat" where
  "new h = (h, Suc h)"

definition construct :: "nat \<Rightarrow> workflow_object \<times> nat" where
  "construct h =
     (let (s, h1) = new h; (c, h2) = new h1
      in (\<lparr>store = s, checkpointer = c, agentState = None\<rparr>, h2))"

definition initializeBaseState :: "workflow_object \<Rightarrow> nat \<Rightarrow> ref \<times> workflow_object \<times> nat" where
  "initializeBaseState this h =
     (case agentState this of
        Some a \<Rightarrow> (a, this, h)
      | None \<Rightarrow> (let (a, h1) = new h in (a, this\<lparr>agentState := Some a\<rparr>, h1)))"

definition execute_context ::
  "workflow_object \<Rightarrow> nat \<Rightarrow> string \<Rightarrow> string \<Rightarrow> nat \<Rightarrow> run_context \<times> workflow_object \<times> nat" where
  "execute_context this h owner repo prNumber =
     (let (a, this1, h1) = initializeBaseState this h;
          (b, h2) = new h1;
          (g, h3) = new h2
      in (\<lparr>builder_ref = b, graph_ref = g, graph_state = a,
            graph_store = store this1, graph_checkpointer = checkpointer this1,
            thread_id = owner @ ''/'' @ repo @ ''#'' @ show_nat prNumber\<rparr>,
          this1, h3))"

text \<open>Two runs of one workflow object, one after the other.\<close>

definition two_runs ::
  "nat \<Rightarrow> string \<times> string \<times> nat \<Rightarrow> string \<times> string \<times> nat \<Rightarrow> run_context \<times> run_context" where
  "two_runs h pr1 pr2 =
     (let (this, h0) = construct h;
          (c1, this1, h1) = execute_context this h0 (fst pr1) (fst (snd pr1)) (snd (snd pr1));
          (c2, this2, h2) = execute_context this1 h1 (fst pr2) (fst (snd pr2)) (snd (snd pr2))
      in (c1, c2))"

section \<open>Properties of the string functions\<close>


lemmas case_defs =
  toLowerCase_def toLowerCase_char_def toUpperCase_def toUpperCase_char_def
  upper_ascii_def is_ascii_def upper_letters_def lower_letters_def

section \<open>Properties of \<open>formatAgentName\<close>\<close>

lemma split_str_nonempty: "split_str sep s \<noteq> []"
  by (induction s) (auto split: list.splits)

lemma join_str_Cons_Cons: "join_str sep ((c # a) # ws) = c # join_str sep (a # ws)"
  by (cases ws) simp_all

lemma join_str_Nil_Cons: "join_str sep ([] # a # ws) = sep @ join_str sep (a # ws)"
  by simp

lemma join_split: "join_str [sep] (split_str sep s) = s"
proof (induction s)
  case Nil show ?case by simp
next
  case (Cons c cs)
  obtain a ws where sp: "split_str sep cs = a # ws"
    using split_str_nonempty[of sep cs] by (cases "split_str sep cs") auto
  with Cons show ?case by (simp add: join_str_Cons_Cons)
qed

lemma upper_ascii_underscore: "upper_ascii CHR ''_'' = CHR ''_''"
  by (simp add: case_defs)

lemma capitalize_Nil: "capitalize tbl [] = []"
  by (simp add: capitalize_def toUpperCase_def)

lemma capitalize_Cons: "is_ascii c \<Longrightarrow> capitalize tbl (c # cs) = upper_ascii c # cs"
  by (simp add: capitalize_def toUpperCase_def toUpperCase_char_def)

lemma scan_split:
  "\<forall>c \<in> set s. is_ascii c \<Longrightarrow> split_str CHR ''_'' s = a # ws \<Longrightarrow>
     join_str ''_'' (map (capitalize tbl) (a # ws)) = title_scan True s
     \<and> join_str ''_'' (a # map (capitalize tbl) ws) = title_scan False s"
proof (induction s arbitrary: a ws)
  case Nil
  then show ?case by (simp add: capitalize_Nil)
next
  case (Cons c cs)
  obtain a' ws' where sp: "split_str CHR ''_'' cs = a' # ws'"
    using split_str_nonempty[of "CHR ''_''" cs] by (cases "split_str CHR ''_'' cs") auto
  from Cons.prems(1) have asc: "is_ascii c" "\<forall>c \<in> set cs. is_ascii c" by simp_all
  note IH = Cons.IH[OF asc(2) sp]
  show ?case
  proof (cases "c = CHR ''_''")
    case True
    with Cons.prems(2) sp have "a = []" "ws = a' # ws'" by simp_all
    with IH True show ?thesis by (simp add: capitalize_Nil)
  next
    case False
    with Cons.prems(2) sp have "a = c # a'" "ws = ws'" by simp_all
    with IH False asc(1) show ?thesis
      by (simp add: capitalize_Cons join_str_Cons_Cons)
  qed
qed

lemma formatAgentName_scan:
  "\<forall>c \<in> set n. is_ascii c \<Longrightarrow> formatAgentName tbl n = title_scan True n"
proof -
  assume asc: "\<forall>c \<in> set n. is_ascii c"
  obtain a ws where sp: "split_str CHR ''_'' n = a # ws"
    using split_str_nonempty[of "CHR ''_''" n] by (cases "split_str CHR ''_'' n") auto
  from scan_split[OF asc sp] show ?thesis by (simp add: formatAgentName_def sp)
qed

lemma length_title_scan: "length (title_scan b s) = length s"
  by (induction s arbitrary: b) simp_all

lemma nth_title_scan:
  "i < length s \<Longrightarrow>
   title_scan b s ! i =
     (if (i = 0 \<and> b) \<or> (0 < i \<and> s ! (i - 1) = CHR ''_'') then upper_ascii (s ! i) else s ! i)"
proof (induction s arbitrary: b i)
  case Nil then show ?case by simp
next
  case (Cons c cs)
  show ?case
  proof (cases i)
    case 0
    then show ?thesis by (simp add: upper_ascii_underscore)
  next
    case (Suc j)
    with Cons.prems have j: "j < length cs" by simp
    show ?thesis using Cons.IH[OF j] Suc
      by (cases j) (simp_all)
  qed
qed

section \<open>Properties of the execution loop\<close>

lemma apply_update_prefix: "prefix (messages s) (messages (apply_update s upd))"
  by (simp add: apply_update_def messages_reducer_def split: option.splits)

lemma run_loop_prefix:
  "snd (run_loop e w fuel k n s) = Inr s' \<Longrightarrow> prefix (messages s) (messages s')"
proof (induction fuel arbitrary: k n s)
  case 0
  then show ?case by (simp split: sum.splits)
next
  case (Suc fuel)
  show ?case
  proof (cases "run_node e w k n s")
    case (Inl err)
    with Suc.prems show ?thesis by simp
  next
    case (Inr upd)
    let ?s = "apply_update s upd"
    have p: "prefix (messages s) (messages ?s)" by (rule apply_update_prefix)
    show ?thesis
    proof (cases "next_node w n ?s")
      case None
      with Inr Suc.prems p show ?thesis by simp
    next
      case (Some n')
      with Inr Suc.prems
      have "snd (run_loop e w fuel (if n = supervisor then Suc k else k) n' ?s) = Inr s'"
        by (simp add: Let_def)
      from Suc.IH[OF this] p show ?thesis by (rule prefix_order.trans[rotated])
    qed
  qed
qed




lemma supervisorChain_routing:
  "map_sum id (apply_update s) (supervisorChain llm s) =
     map_sum id (\<lambda>d. s\<lparr>next := next_reducer (Some (next s)) d\<rparr>) (routing_decision (llm s))"
  by (auto simp: supervisorChain_def routing_decision_def apply_update_def next_reducer_def
           split: sum.splits list.splits option.splits)

lemma agentNode_final_output:
  "map_sum id (apply_update s) (agentNode tbl agent ac s) =
     map_sum id (\<lambda>c. s\<lparr>messages := messages s @ [HumanMessage c (Some (formatAgentName tbl (name ac)))]\<rparr>)
       (final_output (agent s))"
  by (auto simp: agentNode_def final_output_def apply_update_def next_reducer_def
                 messages_reducer_def split: sum.splits)

lemma step_state_supervisor:
  "step_state e w k supervisor s =
     (case routing_decision (decide e k s) of
        Inl err \<Rightarrow> Inl err
      | Inr d \<Rightarrow>
          if next_reducer (Some (next s)) d = []
          then Inl (Error ''Branch condition returned unknown or null destination'')
          else Inr (s\<lparr>next := next_reducer (Some (next s)) d\<rparr>))"
  by (auto simp: step_state_def run_node_def supervisorChain_def routing_decision_def
                 apply_update_def next_reducer_def split: sum.splits list.splits option.splits)

lemma step_state_agent:
  "n \<noteq> supervisor \<Longrightarrow>
   step_state e w k n s =
     (case find (\<lambda>ac. name ac = n) (agentConfigs w) of
        Some ac \<Rightarrow>
          map_sum id (\<lambda>c. s\<lparr>messages := messages s
                              @ [HumanMessage c (Some (formatAgentName (upper_table e) (name ac)))]\<rparr>)
            (final_output (reactAgent e ac s))
      | None \<Rightarrow> Inr s)"
  by (simp add: step_state_def run_node_def agentNode_final_output apply_update_def
           split: option.splits)

lemma run_loop_step_0:
  "run_loop e w 0 k n s =
     (case step_state e w k n s of
        Inl err \<Rightarrow> ([n], Inl (NodeError err))
      | Inr s' \<Rightarrow> ([n], Inl GraphRecursionError))"
  by (simp add: step_state_def split: sum.splits)

lemma run_loop_step_Suc:
  "run_loop e w (Suc fuel) k n s =
     (case step_state e w k n s of
        Inl err \<Rightarrow> ([n], Inl (NodeError err))
      | Inr s' \<Rightarrow>
          (case next_node w n s' of
             None \<Rightarrow> ([n], Inr s')
           | Some n' \<Rightarrow>
               (n # fst (run_loop e w fuel (if n = supervisor then Suc k else k) n' s'),
                snd (run_loop e w fuel (if n = supervisor then Suc k else k) n' s'))))"
  by (simp add: step_state_def Let_def split: sum.splits option.splits)

lemma run_loop_go:
  "step_state e w k n s = Inr s' \<Longrightarrow> next_node w n s' = Some n' \<Longrightarrow>
   run_loop e w (Suc fuel) k n s =
     (n # fst (run_loop e w fuel (if n = supervisor then Suc k else k) n' s'),
      snd (run_loop e w fuel (if n = supervisor then Suc k else k) n' s'))"
  by (simp add: run_loop_step_Suc del: run_loop.simps)

lemma run_loop_stop:
  "step_state e w k n s = Inr s' \<Longrightarrow> next_node w n s' = None \<Longrightarrow>
   run_loop e w (Suc fuel) k n s = ([n], Inr s')"
  by (simp add: run_loop_step_Suc del: run_loop.simps)


lemma effective_limit_pos: "0 < effective_limit cfg"
  by (simp add: effective_limit_def split: option.splits)

lemma sessions_final_output:
  assumes "\<forall>ac s. \<exists>ms. reactAgent e ac s = Inr ms \<and> ms \<noteq> []"
  shows "\<exists>c. final_output (reactAgent e ac s) = Inr c"
proof -
  from assms obtain ms where "reactAgent e ac s = Inr ms" "ms \<noteq> []" by blast
  then show ?thesis by (simp add: final_output_def)
qed



section \<open>Two runs from states that agree on the destination\<close>

lemma next_node_cong: "next t1 = next t2 \<Longrightarrow> next_node w n t1 = next_node w n t2"
  by (simp add: next_node_def)

lemma graph_invoke_pos:
  "0 < l \<Longrightarrow> graph_invoke e w l st inp =
                run_loop e w (l - 1) 0 supervisor (apply_update st (Some inp))"
  by (cases l) (simp_all add: graph_invoke_def)

lemma step_state_sim:
  assumes H1: "\<forall>k s s'. routing_decision (decide e k s) = routing_decision (decide e k s')"
      and H2: "\<forall>ac s s'. final_output (reactAgent e ac s) = final_output (reactAgent e ac s')"
      and pre: "next s1 = next s2
                \<or> (n = supervisor \<and> (\<exists>d. routing_decision (decide e k s1) = Inr (Some d)))"
  shows "(\<exists>err. step_state e w k n s1 = Inl err \<and> step_state e w k n s2 = Inl err)
         \<or> (\<exists>t1 t2 a. step_state e w k n s1 = Inr t1 \<and> step_state e w k n s2 = Inr t2
               \<and> next t1 = next t2
               \<and> messages t1 = messages s1 @ a \<and> messages t2 = messages s2 @ a)"
proof (cases "n = supervisor")
  case True
  from H1 have same: "routing_decision (decide e k s2) = routing_decision (decide e k s1)"
    by blast
  show ?thesis
  proof (cases "routing_decision (decide e k s1)")
    case (Inl err)
    with True same show ?thesis by (simp add: step_state_supervisor)
  next
    case (Inr d)
    show ?thesis
    proof (cases d)
      case None
      with Inr pre have eq: "next s1 = next s2" by auto
      show ?thesis
      proof (cases "next s1 = []")
        case True
        with \<open>n = supervisor\<close> same Inr None eq show ?thesis
          by (simp add: step_state_supervisor next_reducer_def)
      next
        case False
        with \<open>n = supervisor\<close> same Inr None eq
        have "step_state e w k n s1 = Inr s1" "step_state e w k n s2 = Inr s2"
          by (simp_all add: step_state_supervisor next_reducer_def)
        with eq show ?thesis by auto
      qed
    next
      case (Some x)
      show ?thesis
      proof (cases "x = []")
        case True
        with \<open>n = supervisor\<close> same Inr Some show ?thesis
          by (simp add: step_state_supervisor next_reducer_def)
      next
        case False
        with \<open>n = supervisor\<close> same Inr Some
        have "step_state e w k n s1 = Inr (s1\<lparr>next := x\<rparr>)"
             "step_state e w k n s2 = Inr (s2\<lparr>next := x\<rparr>)"
          by (simp_all add: step_state_supervisor next_reducer_def)
        then show ?thesis by auto
      qed
    qed
  qed
next
  case False
  with pre have eq: "next s1 = next s2" by simp
  show ?thesis
  proof (cases "find (\<lambda>ac. name ac = n) (agentConfigs w)")
    case None
    with False have "step_state e w k n s1 = Inr s1" "step_state e w k n s2 = Inr s2"
      by (simp_all add: step_state_agent)
    with eq show ?thesis by auto
  next
    case (Some ac)
    from H2 have same: "final_output (reactAgent e ac s2) = final_output (reactAgent e ac s1)"
      by blast
    show ?thesis
    proof (cases "final_output (reactAgent e ac s1)")
      case (Inl err)
      with False Some same show ?thesis by (simp add: step_state_agent)
    next
      case (Inr c)
      let ?m = "HumanMessage c (Some (formatAgentName (upper_table e) (name ac)))"
      from False Some same Inr
      have "step_state e w k n s1 = Inr (s1\<lparr>messages := messages s1 @ [?m]\<rparr>)"
           "step_state e w k n s2 = Inr (s2\<lparr>messages := messages s2 @ [?m]\<rparr>)"
        by (simp_all add: step_state_agent)
      with eq show ?thesis by auto
    qed
  qed
qed

lemma run_loop_sim:
  assumes H1: "\<forall>k s s'. routing_decision (decide e k s) = routing_decision (decide e k s')"
      and H2: "\<forall>ac s s'. final_output (reactAgent e ac s) = final_output (reactAgent e ac s')"
  shows "next s1 = next s2
           \<or> (n = supervisor \<and> (\<exists>d. routing_decision (decide e k s1) = Inr (Some d))) \<Longrightarrow>
         fst (run_loop e w fuel k n s1) = fst (run_loop e w fuel k n s2)
         \<and> ((\<exists>err. snd (run_loop e w fuel k n s1) = Inl err
                  \<and> snd (run_loop e w fuel k n s2) = Inl err)
            \<or> (\<exists>t1 t2 a. snd (run_loop e w fuel k n s1) = Inr t1
                  \<and> snd (run_loop e w fuel k n s2) = Inr t2
                  \<and> next t1 = next t2
                  \<and> messages t1 = messages s1 @ a \<and> messages t2 = messages s2 @ a))"
proof (induction fuel arbitrary: k n s1 s2)
  case 0
  from step_state_sim[OF H1 H2 0, of w] show ?case
    by (auto simp add: run_loop_step_0 simp del: run_loop.simps)
next
  case (Suc fuel)
  from step_state_sim[OF H1 H2 Suc.prems, of w]
  consider (fail) err where "step_state e w k n s1 = Inl err" "step_state e w k n s2 = Inl err"
    | (go) t1 t2 a where "step_state e w k n s1 = Inr t1" "step_state e w k n s2 = Inr t2"
        "next t1 = next t2" "messages t1 = messages s1 @ a" "messages t2 = messages s2 @ a"
    by blast
  then show ?case
  proof cases
    case fail
    then show ?thesis by (simp add: run_loop_step_Suc del: run_loop.simps)
  next
    case go
    from go(3) have nn: "next_node w n t2 = next_node w n t1" by (simp add: next_node_def)
    show ?thesis
    proof (cases "next_node w n t1")
      case None
      with go nn show ?thesis by (simp add: run_loop_step_Suc del: run_loop.simps)
    next
      case (Some n')
      let ?k = "if n = supervisor then Suc k else k"
      from go(3) have "next t1 = next t2
           \<or> (n' = supervisor \<and> (\<exists>d. routing_decision (decide e ?k t1) = Inr (Some d)))"
        by simp
      from Suc.IH[OF this]
      have IH: "fst (run_loop e w fuel ?k n' t1) = fst (run_loop e w fuel ?k n' t2)
         \<and> ((\<exists>err. snd (run_loop e w fuel ?k n' t1) = Inl err
                  \<and> snd (run_loop e w fuel ?k n' t2) = Inl err)
            \<or> (\<exists>u1 u2 b. snd (run_loop e w fuel ?k n' t1) = Inr u1
                  \<and> snd (run_loop e w fuel ?k n' t2) = Inr u2
                  \<and> next u1 = next u2
                  \<and> messages u1 = messages t1 @ b \<and> messages u2 = messages t2 @ b))" .
      have r1: "run_loop e w (Suc fuel) k n s1
                  = (n # fst (run_loop e w fuel ?k n' t1), snd (run_loop e w fuel ?k n' t1))"
        using go(1) Some by (simp add: run_loop_step_Suc del: run_loop.simps)
      have r2: "run_loop e w (Suc fuel) k n s2
                  = (n # fst (run_loop e w fuel ?k n' t2), snd (run_loop e w fuel ?k n' t2))"
        using go(2) Some nn by (simp add: run_loop_step_Suc del: run_loop.simps)
      from IH go(4,5) show ?thesis unfolding r1 r2 by auto
    qed
  qed
qed

section \<open>Properties of the objects of a run\<close>

declare show_nat.simps [simp del]

lemma two_runs_eq:
  "two_runs h pr1 pr2 =
     (\<lparr>builder_ref = h + 3, graph_ref = h + 4, graph_state = h + 2, graph_store = h,
       graph_checkpointer = h + 1,
       thread_id = fst pr1 @ ''/'' @ fst (snd pr1) @ ''#'' @ show_nat (snd (snd pr1))\<rparr>,
      \<lparr>builder_ref = h + 5, graph_ref = h + 6, graph_state = h + 2, graph_store = h,
       graph_checkpointer = h + 1,
       thread_id = fst pr2 @ ''/'' @ fst (snd pr2) @ ''#'' @ show_nat (snd (snd pr2))\<rparr>)"
  by (simp add: two_runs_def construct_def execute_context_def initializeBaseState_def
                new_def Let_def)

section \<open>Webhook signature and bot comments\<close>

text \<open>
  Claim C8. With the services initialised, a request whose headers have no
  \<open>x-hub-signature-256\<close> entry is accepted: \<open>verifySignature\<close> returns true and checks
  nothing. A request that carries a non-empty signature gets exactly the answer of
  \<open>verifyWebhookSignature\<close>, and a request is rejected only when it carries a signature
  that differs from the expected one.
\<close>

theorem verifySignature_missing_header:
  "currentServices ws = Some services \<Longrightarrow>
     (headers req ''x-hub-signature-256'' = None
        \<longrightarrow> verifySignature hmac stringify ws req = Inr True)
   \<and> (\<forall>signature. headers req ''x-hub-signature-256'' = Some signature \<and> signature \<noteq> []
        \<longrightarrow> verifySignature hmac stringify ws req =
              verifyWebhookSignature hmac (githubService services) (stringify (body req)) signature)
   \<and> (verifySignature hmac stringify ws req = Inr False
        \<longrightarrow> (\<exists>signature. headers req ''x-hub-signature-256'' = Some signature
               \<and> signature \<noteq> ''sha256='' @ hmac (webhookSecret (githubService services))
                                                 (stringify (body req))))"
  by (auto simp: verifySignature_def verifyWebhookSignature_def verifyWebhookSignature_try_def
                 timingSafeEqual_def split: option.splits if_splits)

theorem verifySignature_missing_header_witness:
  "verifySignature (\<lambda>secret payload. ''00'') id
     \<lparr>currentServices = Some \<lparr>githubService = \<lparr>webhookSecret = ''s'', botUsername = None\<rparr>\<rparr>\<rparr>
     \<lparr>headers = Map.empty, body = ''{}''\<rparr> = Inr True
   \<and> verifySignature (\<lambda>secret payload. ''00'') id
     \<lparr>currentServices = Some \<lparr>githubService = \<lparr>webhookSecret = ''s'', botUsername = None\<rparr>\<rparr>\<rparr>
     \<lparr>headers = [''x-hub-signature-256'' \<mapsto> ''sha256=ff''], body = ''{}''\<rparr> = Inr False"
  using verifySignature_missing_header
    [of "\<lparr>currentServices = Some \<lparr>githubService = \<lparr>webhookSecret = ''s'', botUsername = None\<rparr>\<rparr>\<rparr>"
        "\<lparr>githubService = \<lparr>webhookSecret = ''s'', botUsername = None\<rparr>\<rparr>"
        "\<lparr>headers = Map.empty, body = ''{}''\<rparr>" "\<lambda>secret payload. ''00''" id]
  by (simp add: verifySignature_def verifyWebhookSignature_def verifyWebhookSignature_try_def
                timingSafeEqual_def)

text \<open>
  Claim C9. \<open>verifyWebhookSignature\<close> returns a boolean for every payload and every
  signature and never an error. When the signature and the expected string
  \<open>sha256=<hmac>\<close> differ in length, \<open>timingSafeEqual\<close> raises, the error is caught and
  the result is false.
\<close>

theorem verifyWebhookSignature_total:
  "(\<exists>b. verifyWebhookSignature hmac svc payload signature = Inr b)
   \<and> (length signature \<noteq> length (''sha256='' @ hmac (webhookSecret svc) payload)
        \<longrightarrow> timingSafeEqual signature (''sha256='' @ hmac (webhookSecret svc) payload) = Inl RangeError
          \<and> verifyWebhookSignature hmac svc payload signature = Inr False)"
  by (auto simp: verifyWebhookSignature_def verifyWebhookSignature_try_def timingSafeEqual_def)

theorem verifyWebhookSignature_total_witness:
  "length ''sha256=1'' \<noteq> length (''sha256='' @ ''00'')
   \<and> timingSafeEqual ''sha256=1'' (''sha256='' @ ''00'') = Inl RangeError
   \<and> verifyWebhookSignature (\<lambda>secret payload. ''00'')
        \<lparr>webhookSecret = ''s'', botUsername = None\<rparr> ''{}'' ''sha256=1'' = Inr False"
  using verifyWebhookSignature_total
    [of "\<lambda>secret payload. ''00''" "\<lparr>webhookSecret = ''s'', botUsername = None\<rparr>" "''{}''" "''sha256=1''"]
  by simp



section \<open>The agent node\<close>

text \<open>
  Claim C4. Whenever an agent node returns an update, the agent session has returned a
  non-empty list of messages and the update holds exactly one message: its content is the
  content of the session's last message, its name is the formatted agent name, and
  \<open>next\<close> is not written. The formatted name is the agent's name split at the
  underscores, each word with its first character upper-cased and the rest kept, joined
  with underscores again. For an ASCII name this keeps the length, and the character at
  each position is the upper-cased original when the position opens the name or follows
  an underscore and the original otherwise; \<open>security_agent\<close> becomes
  \<open>Security_Agent\<close>.
\<close>

theorem agentNode_one_message:
  "(agentNode tbl agent ac s = Inr upd \<longrightarrow>
      (\<exists>result. agent s = Inr result \<and> result \<noteq> []
         \<and> upd = Some \<lparr>upd_messages = Some [HumanMessage (content (last result))
                                              (Some (formatAgentName tbl (name ac)))],
                        upd_next = None\<rparr>))
   \<and> formatAgentName tbl (name ac) =
       join_str ''_'' (map (\<lambda>word. toUpperCase tbl (take 1 word) @ drop 1 word)
                          (split_str CHR ''_'' (name ac)))
   \<and> ((\<forall>c \<in> set (name ac). is_ascii c) \<longrightarrow>
         length (formatAgentName tbl (name ac)) = length (name ac)
         \<and> (\<forall>i < length (name ac).
               formatAgentName tbl (name ac) ! i =
                 (if i = 0 \<or> name ac ! (i - 1) = CHR ''_'' then upper_ascii (name ac ! i)
                  else name ac ! i)))
   \<and> formatAgentName tbl ''security_agent'' = ''Security_Agent''"
proof -
  have a: "agentNode tbl agent ac s = Inr upd \<longrightarrow>
      (\<exists>result. agent s = Inr result \<and> result \<noteq> []
         \<and> upd = Some \<lparr>upd_messages = Some [HumanMessage (content (last result))
                                              (Some (formatAgentName tbl (name ac)))],
                        upd_next = None\<rparr>)"
    by (auto simp: agentNode_def split: sum.splits if_splits)
  have b: "formatAgentName tbl (name ac) =
       join_str ''_'' (map (\<lambda>word. toUpperCase tbl (take 1 word) @ drop 1 word)
                          (split_str CHR ''_'' (name ac)))"
    by (simp add: formatAgentName_def capitalize_def[abs_def])
  have c: "(\<forall>c \<in> set (name ac). is_ascii c) \<longrightarrow>
         length (formatAgentName tbl (name ac)) = length (name ac)
         \<and> (\<forall>i < length (name ac).
               formatAgentName tbl (name ac) ! i =
                 (if i = 0 \<or> name ac ! (i - 1) = CHR ''_'' then upper_ascii (name ac ! i)
                  else name ac ! i))"
    by (auto simp: formatAgentName_scan length_title_scan nth_title_scan)
  have d: "formatAgentName tbl ''security_agent'' = ''Security_Agent''"
    by (simp add: formatAgentName_def capitalize_def case_defs)
  from a b c d show ?thesis by blast
qed

theorem agentNode_one_message_witness:
  "agentNode (\<lambda>c. ''SS'') (\<lambda>s. Inr [HumanMessage ''thinking'' None, HumanMessage ''no issues'' None])
      \<lparr>name = ''code_quality_agent'', tools = [], systemPrompt = ''p''\<rparr> default_state
     = Inr (Some \<lparr>upd_messages = Some [HumanMessage ''no issues'' (Some ''Code_Quality_Agent'')],
                  upd_next = None\<rparr>)
   \<and> list_all is_ascii ''code_quality_agent''
   \<and> formatAgentName (\<lambda>c. ''SS'') ''code_quality_agent'' ! 5 = CHR ''Q''
   \<and> formatAgentName (\<lambda>c. ''SS'') ''code_quality_agent'' ! 6 = CHR ''u''
   \<and> formatAgentName (\<lambda>c. ''SS'') (CHR 0xDF # ''eta_x'') = ''SSeta_X''"
proof -
  let ?ac = "\<lparr>name = ''code_quality_agent'', tools = [], systemPrompt = ''p''\<rparr>"
  have run: "agentNode (\<lambda>c. ''SS'') (\<lambda>s. Inr [HumanMessage ''thinking'' None, HumanMessage ''no issues'' None])
      ?ac default_state
     = Inr (Some \<lparr>upd_messages = Some [HumanMessage ''no issues'' (Some ''Code_Quality_Agent'')],
                  upd_next = None\<rparr>)"
    by (simp add: agentNode_def formatAgentName_def capitalize_def case_defs)
  have asc: "\<forall>c \<in> set ''code_quality_agent''. is_ascii c"
    by (simp add: is_ascii_def)
  then have asc': "\<forall>c \<in> set (name ?ac). is_ascii c" by simp
  note T = agentNode_one_message
    [of "\<lambda>c. ''SS''" "\<lambda>s. Inr [HumanMessage ''thinking'' None, HumanMessage ''no issues'' None]"
        ?ac default_state
        "Some \<lparr>upd_messages = Some [HumanMessage ''no issues'' (Some ''Code_Quality_Agent'')],
               upd_next = None\<rparr>"]
  from T asc' have "\<forall>i<length (name ?ac).
         formatAgentName (\<lambda>c. ''SS'') (name ?ac) ! i =
           (if i = 0 \<or> name ?ac ! (i - 1) = CHR ''_''
            then upper_ascii (name ?ac ! i)
            else name ?ac ! i)"
    by blast
  then have pos: "\<forall>i<length ''code_quality_agent''.
         formatAgentName (\<lambda>c. ''SS'') ''code_quality_agent'' ! i =
           (if i = 0 \<or> ''code_quality_agent'' ! (i - 1) = CHR ''_''
            then upper_ascii (''code_quality_agent'' ! i)
            else ''code_quality_agent'' ! i)"
    by simp
  from pos have p5: "formatAgentName (\<lambda>c. ''SS'') ''code_quality_agent'' ! 5 = CHR ''Q''"
    by (simp add: case_defs)
  from pos have p6: "formatAgentName (\<lambda>c. ''SS'') ''code_quality_agent'' ! 6 = CHR ''u''"
    by (simp add: case_defs)
  have ext: "formatAgentName (\<lambda>c. ''SS'') (CHR 0xDF # ''eta_x'') = ''SSeta_X''"
    by (simp add: formatAgentName_def capitalize_def case_defs)
  from asc have "list_all is_ascii ''code_quality_agent''" by (simp add: list_all_iff)
  with run p5 p6 ext show ?thesis by simp
qed

section \<open>The state of a run\<close>

text \<open>
  Claim C3. The reducer of \<open>messages\<close> is list concatenation and its default is the
  empty list. Merging any update of any node leaves the messages held so far as a prefix
  of the new list, in the same order and unchanged, so the length never decreases. The
  same holds from any point of the execution loop to the state the run returns. The state
  returned by a run starts with the messages that the thread held when the run started,
  followed by the initial human message of the run.
\<close>

theorem messages_append_only:
  "messages_reducer x y = x @ y
   \<and> messages_default = []
   \<and> prefix (messages s) (messages (apply_update s upd))
   \<and> length (messages s) \<le> length (messages (apply_update s upd))
   \<and> (snd (run_loop e w fuel k n s) = Inr s'
        \<longrightarrow> prefix (messages s) (messages s') \<and> length (messages s) \<le> length (messages s'))
   \<and> (snd (execute_run e w saved m) = Inr s''
        \<longrightarrow> prefix (messages (thread_state saved) @ [HumanMessage m None]) (messages s''))"
proof -
  have step: "prefix (messages s) (messages (apply_update s upd))"
    by (rule apply_update_prefix)
  have loop: "snd (run_loop e w fuel k n s) = Inr s'
        \<longrightarrow> prefix (messages s) (messages s') \<and> length (messages s) \<le> length (messages s')"
    using run_loop_prefix[of e w fuel k n s s'] by (auto dest: prefix_length_le)
  let ?inp = "\<lparr>upd_messages = Some [HumanMessage m None], upd_next = None\<rparr>"
  have init: "messages (apply_update (thread_state saved) (Some ?inp))
              = messages (thread_state saved) @ [HumanMessage m None]"
    by (simp add: apply_update_def messages_reducer_def)
  have run: "snd (execute_run e w saved m) = Inr s''
        \<longrightarrow> prefix (messages (thread_state saved) @ [HumanMessage m None]) (messages s'')"
  proof
    assume r: "snd (execute_run e w saved m) = Inr s''"
    then have b: "buildable w" by (auto simp: execute_run_def split: if_splits)
    have "0 < effective_limit (config w)" by (rule effective_limit_pos)
    with r b have "snd (run_loop e w (effective_limit (config w) - 1) 0 supervisor
                     (apply_update (thread_state saved) (Some ?inp))) = Inr s''"
      by (simp add: execute_run_def graph_invoke_pos)
    then have "prefix (messages (apply_update (thread_state saved) (Some ?inp))) (messages s'')"
      by (rule run_loop_prefix)
    with init show "prefix (messages (thread_state saved) @ [HumanMessage m None]) (messages s'')"
      by simp
  qed
  from step loop run show ?thesis
    by (simp add: messages_reducer_def messages_default_def prefix_length_le)
qed

theorem messages_append_only_witness:
  "snd (execute_run \<lparr>decide = sequence_oracle [''agent1'', END], reactAgent = echo_agent,
                     upper_table = keep_char\<rparr>
         (two_agents None)
         (Some \<lparr>messages = [HumanMessage ''earlier'' None], next = END\<rparr>) ''review'')
     = Inr \<lparr>messages = [HumanMessage ''earlier'' None, HumanMessage ''review'' None,
                        HumanMessage ''reply of agent1'' (Some ''Agent1'')], next = END\<rparr>
   \<and> prefix [HumanMessage ''earlier'' None, HumanMessage ''review'' None]
        [HumanMessage ''earlier'' None, HumanMessage ''review'' None,
         HumanMessage ''reply of agent1'' (Some ''Agent1'')]"
proof -
  let ?e = "\<lparr>decide = sequence_oracle [''agent1'', END], reactAgent = echo_agent,
             upper_table = keep_char\<rparr>"
  let ?saved = "Some \<lparr>messages = [HumanMessage ''earlier'' None], next = END\<rparr>"
  let ?s = "\<lparr>messages = [HumanMessage ''earlier'' None, HumanMessage ''review'' None,
                        HumanMessage ''reply of agent1'' (Some ''Agent1'')], next = END\<rparr>"
  have run: "snd (execute_run ?e (two_agents None) ?saved ''review'') = Inr ?s"
    by code_simp
  from messages_append_only
    [of _ _ _ _ ?e "two_agents None" _ _ _ _ ?saved "''review''" ?s] run
  show ?thesis by (simp add: thread_state_def)
qed

section \<open>Runs of the graph\<close>

text \<open>
  Claim C5. Scenario A: members \<open>agent1\<close> and \<open>agent2\<close>, an oracle that answers
  \<open>agent1\<close>, \<open>agent2\<close> and then the terminal marker, agent sessions that return a
  non-empty result, a thread that has not run before, and a limit of at least 6 steps (the
  default 100 is one). The run invokes supervisor, agent1, supervisor, agent2, supervisor
  and returns a state with exactly three messages (the initial human message and one
  message of each agent, under the names \<open>Agent1\<close> and \<open>Agent2\<close>) and with \<open>next\<close>
  equal to the terminal marker.
\<close>

theorem scenario_A:
  assumes sessions: "\<forall>ac s. \<exists>ms. reactAgent e ac s = Inr ms \<and> ms \<noteq> []"
      and orc: "decide e = sequence_oracle [''agent1'', ''agent2'', END]"
      and lim: "6 \<le> effective_limit (config (two_agents limit))"
  shows "\<exists>c1 c2. execute_run e (two_agents limit) None m =
           ([supervisor, ''agent1'', supervisor, ''agent2'', supervisor],
            Inr \<lparr>messages = [HumanMessage m None,
                              HumanMessage c1 (Some ''Agent1''),
                              HumanMessage c2 (Some ''Agent2'')],
                 next = END\<rparr>)"
proof -
  let ?w = "two_agents limit"
  let ?a1 = "\<lparr>name = ''agent1'', tools = [], systemPrompt = ''first''\<rparr>"
  let ?a2 = "\<lparr>name = ''agent2'', tools = [], systemPrompt = ''second''\<rparr>"
  let ?s0 = "\<lparr>messages = [HumanMessage m None], next = END\<rparr>"
  let ?s1 = "\<lparr>messages = [HumanMessage m None], next = ''agent1''\<rparr>"
  obtain c1 where c1: "final_output (reactAgent e ?a1 ?s1) = Inr c1"
    using sessions_final_output[OF sessions] by blast
  let ?s2 = "\<lparr>messages = [HumanMessage m None, HumanMessage c1 (Some ''Agent1'')],
              next = ''agent1''\<rparr>"
  let ?s3 = "\<lparr>messages = [HumanMessage m None, HumanMessage c1 (Some ''Agent1'')],
              next = ''agent2''\<rparr>"
  obtain c2 where c2: "final_output (reactAgent e ?a2 ?s3) = Inr c2"
    using sessions_final_output[OF sessions] by blast
  let ?s4 = "\<lparr>messages = [HumanMessage m None, HumanMessage c1 (Some ''Agent1''),
                           HumanMessage c2 (Some ''Agent2'')], next = ''agent2''\<rparr>"
  let ?s5 = "\<lparr>messages = [HumanMessage m None, HumanMessage c1 (Some ''Agent1''),
                           HumanMessage c2 (Some ''Agent2'')], next = END\<rparr>"
  have names: "formatAgentName (upper_table e) ''agent1'' = ''Agent1''"
              "formatAgentName (upper_table e) ''agent2'' = ''Agent2''"
    by (simp_all add: formatAgentName_def capitalize_def case_defs)
  have neq: "''agent1'' \<noteq> supervisor" "''agent2'' \<noteq> supervisor"
            "''agent1'' \<noteq> END" "''agent2'' \<noteq> END"
    by (simp_all add: supervisor_def END_def)
  have st0: "step_state e ?w 0 supervisor ?s0 = Inr ?s1"
    by (simp add: step_state_supervisor orc sequence_oracle_def routing_decision_def
                  next_reducer_def)
  have bld: "buildable ?w"
    by (simp add: buildable_def two_agents_def node_names_def supervisor_def END_def)
  have nx0: "next_node ?w supervisor ?s1 = Some ''agent1''"
    using neq by (simp add: next_node_def node_names_def two_agents_def)
  have st1: "step_state e ?w 1 ''agent1'' ?s1 = Inr ?s2"
    using neq c1 names by (simp add: step_state_agent two_agents_def)
  have nx1: "next_node ?w ''agent1'' ?s2 = Some supervisor"
    using neq by (simp add: next_node_def two_agents_def)
  have st2: "step_state e ?w 1 supervisor ?s2 = Inr ?s3"
    by (simp add: step_state_supervisor orc sequence_oracle_def routing_decision_def
                  next_reducer_def)
  have nx2: "next_node ?w supervisor ?s3 = Some ''agent2''"
    using neq by (simp add: next_node_def node_names_def two_agents_def)
  have st3: "step_state e ?w 2 ''agent2'' ?s3 = Inr ?s4"
    using neq c2 names by (simp add: step_state_agent two_agents_def)
  have nx3: "next_node ?w ''agent2'' ?s4 = Some supervisor"
    using neq by (simp add: next_node_def two_agents_def)
  have st4: "step_state e ?w 2 supervisor ?s4 = Inr ?s5"
    by (simp add: step_state_supervisor orc sequence_oracle_def routing_decision_def
                  next_reducer_def END_def)
  have nx4: "next_node ?w supervisor ?s5 = None"
    by (simp add: next_node_def)
  define f where "f = effective_limit (config ?w) - 6"
  with lim have f: "effective_limit (config ?w) = Suc (Suc (Suc (Suc (Suc (Suc f)))))"
    by arith
  have r4: "run_loop e ?w (Suc f) 2 supervisor ?s4 = ([supervisor], Inr ?s5)"
    by (rule run_loop_stop[OF st4 nx4])
  have r3: "run_loop e ?w (Suc (Suc f)) 2 ''agent2'' ?s3
              = ([''agent2'', supervisor], Inr ?s5)"
    using run_loop_go[OF st3 nx3, of "Suc f"] neq r4 by simp
  have r2: "run_loop e ?w (Suc (Suc (Suc f))) 1 supervisor ?s2
              = ([supervisor, ''agent2'', supervisor], Inr ?s5)"
    using run_loop_go[OF st2 nx2, of "Suc (Suc f)"] r3 by (simp add: numeral_2_eq_2)
  have r1: "run_loop e ?w (Suc (Suc (Suc (Suc f)))) 1 ''agent1'' ?s1
              = ([''agent1'', supervisor, ''agent2'', supervisor], Inr ?s5)"
    using run_loop_go[OF st1 nx1, of "Suc (Suc (Suc f))"] neq r2 by simp
  have r0: "run_loop e ?w (Suc (Suc (Suc (Suc (Suc f))))) 0 supervisor ?s0
              = ([supervisor, ''agent1'', supervisor, ''agent2'', supervisor], Inr ?s5)"
    using run_loop_go[OF st0 nx0, of "Suc (Suc (Suc (Suc f)))"] r1 by simp
  have init: "apply_update (thread_state None)
                (Some \<lparr>upd_messages = Some [HumanMessage m None], upd_next = None\<rparr>) = ?s0"
    by (simp add: apply_update_def thread_state_def default_state_def messages_default_def
                  next_default_def messages_reducer_def next_reducer_def)
  have "execute_run e ?w None m =
          ([supervisor, ''agent1'', supervisor, ''agent2'', supervisor], Inr ?s5)"
    using bld r0 by (simp add: execute_run_def graph_invoke_def init f)
  then show ?thesis by blast
qed

theorem scenario_A_witness:
  "(\<forall>ac s. \<exists>ms. echo_agent ac s = Inr ms \<and> ms \<noteq> [])
   \<and> 6 \<le> effective_limit (config (two_agents None))
   \<and> (\<exists>c1 c2. execute_run
          \<lparr>decide = sequence_oracle [''agent1'', ''agent2'', END], reactAgent = echo_agent,
           upper_table = keep_char\<rparr>
          (two_agents None) None ''review'' =
           ([supervisor, ''agent1'', supervisor, ''agent2'', supervisor],
            Inr \<lparr>messages = [HumanMessage ''review'' None,
                              HumanMessage c1 (Some ''Agent1''),
                              HumanMessage c2 (Some ''Agent2'')],
                 next = END\<rparr>))"
proof -
  have h1: "\<forall>ac s. \<exists>ms. echo_agent ac s = Inr ms \<and> ms \<noteq> []"
    by (simp add: echo_agent_def)
  have h2: "6 \<le> effective_limit (config (two_agents None))"
    by (simp add: effective_limit_def two_agents_def)
  from scenario_A
    [of "\<lparr>decide = sequence_oracle [''agent1'', ''agent2'', END], reactAgent = echo_agent,
          upper_table = keep_char\<rparr>"
        None "''review''"] h1 h2
  show ?thesis by simp
qed

text \<open>
  Claim C1, as the code has it. The supervisor node hands the destination of the oracle's
  reply to \<open>next\<close> without comparing it with the legal set, and no error is raised for
  it anywhere. When the reply names a destination that is neither the terminal marker nor
  a node of the graph, the run ends at this supervisor step and returns the state
  accumulated so far with \<open>next\<close> set to that name: no agent is invoked, \<open>next\<close> is not
  reset to the terminal marker, and the run does not fail.
\<close>

theorem illegal_destination_ends_run:
  assumes "routing_decision (decide e k s) = Inr (Some d)"
      and "d \<noteq> []" and "d \<noteq> END" and "d \<notin> set (node_names w)"
  shows "run_loop e w (Suc fuel) k supervisor s = ([supervisor], Inr (s\<lparr>next := d\<rparr>))"
proof -
  from assms(1,2) have st: "step_state e w k supervisor s = Inr (s\<lparr>next := d\<rparr>)"
    by (simp add: step_state_supervisor next_reducer_def)
  from assms(3,4) have nx: "next_node w supervisor (s\<lparr>next := d\<rparr>) = None"
    by (simp add: next_node_def)
  from st nx show ?thesis by (rule run_loop_stop)
qed

theorem illegal_destination_ends_run_witness:
  "routing_decision (decide \<lparr>decide = constant_oracle ''bogus'', reactAgent = echo_agent,
                             upper_table = keep_char\<rparr> 0
       \<lparr>messages = [HumanMessage ''review'' None], next = END\<rparr>) = Inr (Some ''bogus'')
   \<and> ''bogus'' \<noteq> [] \<and> ''bogus'' \<noteq> END \<and> ''bogus'' \<notin> set (node_names (two_agents None))
   \<and> run_loop \<lparr>decide = constant_oracle ''bogus'', reactAgent = echo_agent,
                upper_table = keep_char\<rparr> (two_agents None)
        (Suc 99) 0 supervisor \<lparr>messages = [HumanMessage ''review'' None], next = END\<rparr>
      = ([supervisor], Inr \<lparr>messages = [HumanMessage ''review'' None], next = ''bogus''\<rparr>)"
proof -
  have h1: "routing_decision (decide \<lparr>decide = constant_oracle ''bogus'', reactAgent = echo_agent,
                             upper_table = keep_char\<rparr> 0
       \<lparr>messages = [HumanMessage ''review'' None], next = END\<rparr>) = Inr (Some ''bogus'')"
    by (simp add: routing_decision_def constant_oracle_def)
  have h0: "''bogus'' \<noteq> []" by simp
  have h2: "''bogus'' \<noteq> END" by (simp add: END_def)
  have h3: "''bogus'' \<notin> set (node_names (two_agents None))"
    by (simp add: node_names_def two_agents_def supervisor_def)
  from illegal_destination_ends_run[OF h1 h0 h2 h3, of 99] h1 h2 h3 show ?thesis by simp
qed

text \<open>
  The run does not fail on an illegal destination: with the members \<open>agent1\<close> and
  \<open>agent2\<close> and an oracle that answers \<open>bogus\<close>, \<open>execute\<close> invokes the supervisor
  once and returns normally, the state holding the initial message and \<open>next = bogus\<close>.
\<close>

theorem illegal_destination_counterexample:
  "execute_run \<lparr>decide = constant_oracle ''bogus'', reactAgent = echo_agent,
                upper_table = keep_char\<rparr>
       (two_agents None) None ''review''
     = ([''supervisor''], Inr \<lparr>messages = [HumanMessage ''review'' None], next = ''bogus''\<rparr>)
   \<and> ''bogus'' \<notin> set (END # members (config (two_agents None)))"
  by code_simp




text \<open>
  Claim C7, as the code has it. The checkpointer of the workflow object keeps the state
  of a thread between runs, so the result of a run also depends on what the thread held.
  Take stubs that do not look at the state: an oracle whose destination depends only on
  the position in its sequence, and agent sessions whose final output is fixed for each
  agent. Then a run on a new thread that returns and a second run of the same workflow
  object on that thread, with the same initial message, invoke the same nodes and return
  the same final message and the same \<open>next\<close>; the state of the second run holds the
  messages of the first run followed by the same messages once more.
\<close>

theorem second_run_same_final_message:
  assumes "\<forall>k s s'. routing_decision (decide e k s) = routing_decision (decide e k s')"
      and "\<forall>ac s s'. final_output (reactAgent e ac s) = final_output (reactAgent e ac s')"
      and "run_twice e w m = Some ((tr1, r1), (tr2, r2))"
  shows "\<exists>s1 s2. r1 = Inr s1 \<and> r2 = Inr s2 \<and> tr2 = tr1 \<and> next s2 = next s1
           \<and> messages s1 \<noteq> []
           \<and> messages s2 = messages s1 @ messages s1
           \<and> last (messages s2) = last (messages s1)
           \<and> execute e w (Some s1) m = execute e w None m"
proof -
  let ?l = "effective_limit (config w)"
  let ?inp = "\<lparr>upd_messages = Some [HumanMessage m None], upd_next = None\<rparr>"
  let ?sA = "\<lparr>messages = [HumanMessage m None], next = END\<rparr>"
  have pos: "0 < ?l" by (rule effective_limit_pos)
  from assms(3) obtain s1 where
    first: "execute_run e w None m = (tr1, Inr s1)" and r1: "r1 = Inr s1"
    and second: "execute_run e w (Some s1) m = (tr2, r2)"
    by (auto simp: run_twice_def split: sum.splits)
  from first have bld: "buildable w" by (auto simp: execute_run_def split: if_splits)
  let ?sB = "\<lparr>messages = messages s1 @ [HumanMessage m None], next = next s1\<rparr>"
  have startA: "apply_update (thread_state None) (Some ?inp) = ?sA"
    by (simp add: apply_update_def thread_state_def default_state_def messages_default_def
                  next_default_def messages_reducer_def next_reducer_def)
  have startB: "apply_update (thread_state (Some s1)) (Some ?inp) = ?sB"
    by (simp add: apply_update_def thread_state_def messages_reducer_def next_reducer_def)
  from first bld pos have runA: "run_loop e w (?l - 1) 0 supervisor ?sA = (tr1, Inr s1)"
    by (simp add: execute_run_def graph_invoke_pos startA)
  from second bld pos have runB: "run_loop e w (?l - 1) 0 supervisor ?sB = (tr2, r2)"
    by (simp add: execute_run_def graph_invoke_pos startB)
  have pre: "next ?sA = next ?sB
               \<or> (supervisor = supervisor
                  \<and> (\<exists>d. routing_decision (decide e 0 ?sA) = Inr (Some d)))"
  proof (cases "routing_decision (decide e 0 ?sA)")
    case (Inl err)
    then have "step_state e w 0 supervisor ?sA = Inl err"
      by (simp add: step_state_supervisor)
    then have "\<exists>x. snd (run_loop e w (?l - 1) 0 supervisor ?sA) = Inl x"
      by (cases "?l - 1") (simp_all add: run_loop_step_0 run_loop_step_Suc del: run_loop.simps)
    with runA show ?thesis by simp
  next
    case (Inr d)
    show ?thesis
    proof (cases d)
      case (Some x)
      with Inr show ?thesis by simp
    next
      case None
      with Inr have st: "step_state e w 0 supervisor ?sA = Inr ?sA"
        by (simp add: step_state_supervisor next_reducer_def END_def)
      have nx: "next_node w supervisor ?sA = None" by (simp add: next_node_def)
      have "s1 = ?sA"
      proof (cases "?l - 1")
        case 0
        with st have "snd (run_loop e w (?l - 1) 0 supervisor ?sA) = Inl GraphRecursionError"
          by (simp add: run_loop_step_0 del: run_loop.simps)
        with runA show ?thesis by simp
      next
        case (Suc f)
        with run_loop_stop[OF st nx, of f] runA show ?thesis by simp
      qed
      then have "next s1 = END" by (metis run_state.select_convs(2))
      then show ?thesis by simp
    qed
  qed
  from run_loop_sim[OF assms(1,2) pre, of w "?l - 1"] runA runB
  obtain a where tr: "tr2 = tr1" and s2: "\<exists>s2. r2 = Inr s2 \<and> next s2 = next s1
      \<and> messages s1 = messages ?sA @ a \<and> messages s2 = messages ?sB @ a"
    by auto
  from s2 obtain s2 where r2: "r2 = Inr s2" and n2: "next s2 = next s1"
    and m1: "messages s1 = [HumanMessage m None] @ a"
    and m2: "messages s2 = (messages s1 @ [HumanMessage m None]) @ a"
    by auto
  from m1 have ne: "messages s1 \<noteq> []" by simp
  from m1 m2 have dbl: "messages s2 = messages s1 @ messages s1" by simp
  with ne have lst: "last (messages s2) = last (messages s1)" by simp
  from first second r2 ne dbl lst
  have ex: "execute e w (Some s1) m = execute e w None m"
    by (simp add: execute_def)
  from r1 r2 tr n2 ne dbl lst ex show ?thesis by blast
qed

theorem second_run_same_final_message_witness:
  "(\<forall>k s s'. routing_decision (sequence_oracle [''agent1'', END] k s)
               = routing_decision (sequence_oracle [''agent1'', END] k s'))
   \<and> (\<forall>ac s s'. final_output (echo_agent ac s) = final_output (echo_agent ac s'))
   \<and> run_twice \<lparr>decide = sequence_oracle [''agent1'', END], reactAgent = echo_agent,
                upper_table = keep_char\<rparr> (two_agents None) ''review''
     = Some (([supervisor, ''agent1'', supervisor],
              Inr \<lparr>messages = [HumanMessage ''review'' None,
                                HumanMessage ''reply of agent1'' (Some ''Agent1'')],
                   next = END\<rparr>),
             ([supervisor, ''agent1'', supervisor],
              Inr \<lparr>messages = [HumanMessage ''review'' None,
                                HumanMessage ''reply of agent1'' (Some ''Agent1''),
                                HumanMessage ''review'' None,
                                HumanMessage ''reply of agent1'' (Some ''Agent1'')],
                   next = END\<rparr>))
   \<and> execute \<lparr>decide = sequence_oracle [''agent1'', END], reactAgent = echo_agent,
              upper_table = keep_char\<rparr> (two_agents None)
        (Some \<lparr>messages = [HumanMessage ''review'' None,
                           HumanMessage ''reply of agent1'' (Some ''Agent1'')],
               next = END\<rparr>) ''review''
     = execute \<lparr>decide = sequence_oracle [''agent1'', END], reactAgent = echo_agent,
                upper_table = keep_char\<rparr> (two_agents None) None ''review''"
proof -
  let ?e = "\<lparr>decide = sequence_oracle [''agent1'', END], reactAgent = echo_agent,
             upper_table = keep_char\<rparr>"
  let ?s1 = "\<lparr>messages = [HumanMessage ''review'' None,
                                HumanMessage ''reply of agent1'' (Some ''Agent1'')],
                   next = END\<rparr>"
  let ?s2 = "\<lparr>messages = [HumanMessage ''review'' None,
                                HumanMessage ''reply of agent1'' (Some ''Agent1''),
                                HumanMessage ''review'' None,
                                HumanMessage ''reply of agent1'' (Some ''Agent1'')],
                   next = END\<rparr>"
  have h1: "\<forall>k s s'. routing_decision (decide ?e k s) = routing_decision (decide ?e k s')"
    by (simp add: routing_decision_def sequence_oracle_def)
  have h2: "\<forall>ac s s'. final_output (reactAgent ?e ac s) = final_output (reactAgent ?e ac s')"
    by (simp add: final_output_def echo_agent_def)
  have r: "run_twice ?e (two_agents None) ''review''
     = Some (([supervisor, ''agent1'', supervisor], Inr ?s1),
             ([supervisor, ''agent1'', supervisor], Inr ?s2))"
    by code_simp
  from second_run_same_final_message[OF h1 h2 r]
  have "execute ?e (two_agents None) (Some ?s1) ''review''
          = execute ?e (two_agents None) None ''review''"
    by simp
  with h1 h2 r show ?thesis by simp
qed

text \<open>
  A deterministic session that looks at the state separates the two runs. With a session
  that answers with the number of messages it is given, the first run on a thread ends in
  the message 1 and the second run of the same workflow object on that thread, with the
  same initial message and the same oracle, ends in the message 3.
\<close>

theorem second_run_counterexample:
  "snd (execute_run \<lparr>decide = sequence_oracle [''agent1'', END], reactAgent = counting_agent,
                     upper_table = keep_char\<rparr> (two_agents None) None ''review'')
     = Inr \<lparr>messages = [HumanMessage ''review'' None, HumanMessage ''1'' (Some ''Agent1'')],
            next = END\<rparr>
   \<and> execute \<lparr>decide = sequence_oracle [''agent1'', END], reactAgent = counting_agent,
              upper_table = keep_char\<rparr> (two_agents None) None ''review''
     = Inr (Some (HumanMessage ''1'' (Some ''Agent1'')))
   \<and> execute \<lparr>decide = sequence_oracle [''agent1'', END], reactAgent = counting_agent,
              upper_table = keep_char\<rparr> (two_agents None)
        (Some \<lparr>messages = [HumanMessage ''review'' None, HumanMessage ''1'' (Some ''Agent1'')],
               next = END\<rparr>) ''review''
     = Inr (Some (HumanMessage ''3'' (Some ''Agent1'')))"
  by code_simp

section \<open>Sharing between runs\<close>

text \<open>
  Claim C6, as the code has it. Every call of \<open>execute\<close> builds a new graph builder and
  compiles a new graph, different from every object that existed before the call. The
  store and the checkpointer are created once, in the constructor, and the graph of every
  run of the same workflow object is given these same two objects; the state annotation is
  created by the first run and used again by the later ones. Two runs for the same owner,
  repository and number use the same thread identifier.
\<close>

theorem runs_share_store_and_checkpointer:
  "two_runs h pr1 pr2 = (c1, c2) \<Longrightarrow>
     graph_ref c1 \<noteq> graph_ref c2 \<and> builder_ref c1 \<noteq> builder_ref c2
   \<and> h \<le> graph_ref c1 \<and> graph_ref c1 < builder_ref c2 \<and> builder_ref c2 < graph_ref c2
   \<and> graph_store c1 = graph_store c2
   \<and> graph_checkpointer c1 = graph_checkpointer c2
   \<and> graph_state c1 = graph_state c2
   \<and> graph_store c1 = store (fst (construct h))
   \<and> graph_checkpointer c1 = checkpointer (fst (construct h))
   \<and> (pr1 = pr2 \<longrightarrow> thread_id c1 = thread_id c2)"
  by (auto simp: two_runs_eq construct_def new_def)

theorem runs_share_store_and_checkpointer_witness:
  "two_runs 0 (''acme'', ''shop'', 42) (''acme'', ''shop'', 42) =
     (\<lparr>builder_ref = 3, graph_ref = 4, graph_state = 2, graph_store = 0,
        graph_checkpointer = 1, thread_id = ''acme/shop#42''\<rparr>,
      \<lparr>builder_ref = 5, graph_ref = 6, graph_state = 2, graph_store = 0,
        graph_checkpointer = 1, thread_id = ''acme/shop#42''\<rparr>)
   \<and> (4::nat) \<noteq> 6 \<and> (0::nat) = 0 \<and> (1::nat) = 1"
proof -
  have r: "two_runs 0 (''acme'', ''shop'', 42) (''acme'', ''shop'', 42) =
     (\<lparr>builder_ref = 3, graph_ref = 4, graph_state = 2, graph_store = 0,
        graph_checkpointer = 1, thread_id = ''acme/shop#42''\<rparr>,
      \<lparr>builder_ref = 5, graph_ref = 6, graph_state = 2, graph_store = 0,
        graph_checkpointer = 1, thread_id = ''acme/shop#42''\<rparr>)"
    by code_simp
  from runs_share_store_and_checkpointer[OF r] r show ?thesis by simp
qed

text \<open>
  Two runs of one workflow object for the same pull request: the graphs of both are bound
  to the same checkpointer and the same store, under the same thread identifier.
\<close>

theorem shared_checkpointer_counterexample:
  "graph_checkpointer (fst (two_runs 0 (''acme'', ''shop'', 42) (''acme'', ''shop'', 42)))
     = graph_checkpointer (snd (two_runs 0 (''acme'', ''shop'', 42) (''acme'', ''shop'', 42)))
   \<and> graph_store (fst (two_runs 0 (''acme'', ''shop'', 42) (''acme'', ''shop'', 42)))
     = graph_store (snd (two_runs 0 (''acme'', ''shop'', 42) (''acme'', ''shop'', 42)))
   \<and> thread_id (fst (two_runs 0 (''acme'', ''shop'', 42) (''acme'', ''shop'', 42)))
     = thread_id (snd (two_runs 0 (''acme'', ''shop'', 42) (''acme'', ''shop'', 42)))"
  by code_simp

end
